theory Spec2Isabelle
  imports Complex_Main "HOL-Library.Log_Nat"
begin

section \<open>JavaScript numbers\<close>

text \<open>
  The token bucket of \<^verbatim>\<open>src/lib/tokenBucket.js\<close> computes with JavaScript numbers,
  which are IEEE 754 double-precision values. A number is modelled as one of the three
  special values of the language or a finite real. Each arithmetic operation on finite
  numbers rounds its exact result to the nearest double, ties to the even significand,
  and overflows to an infinity, as the language prescribes. \<open>Fin 0\<close> is the positive
  zero; the negative zero, which behaves differently only as a divisor, is not
  represented. A numeric argument that the caller leaves out is \<^verbatim>\<open>undefined\<close>; every
  operation this program applies to a number (negation to a boolean, comparison,
  subtraction, addition, division, \<^verbatim>\<open>Math.min\<close>) treats \<^verbatim>\<open>undefined\<close> as it treats
  \<^verbatim>\<open>NaN\<close>, so an omitted numeric argument, and a field that an object does not have,
  is passed as \<open>NaN\<close>.
\<close>

datatype jsnum = NaN | NInf | Fin real | PInf

text \<open>
  Rounding to a double. A non-zero real \<open>x\<close> with \<open>2^k \<le> |x| < 2^(k+1)\<close>, where \<open>k\<close>
  is \<open>binade x\<close>, is rounded to a multiple of \<open>2^(k-52)\<close>, and of \<open>2^(-1074)\<close> in the
  subnormal range; a result of magnitude \<open>2^1024\<close> is an infinity.
\<close>

definition binade :: "real \<Rightarrow> int" where
  "binade x =
     (if 1 \<le> \<bar>x\<bar> then bitlen \<lfloor>\<bar>x\<bar>\<rfloor> - 1 else - bitlen (\<lceil>1 / \<bar>x\<bar>\<rceil> - 1))"

definition ulp_exp :: "real \<Rightarrow> int" where
  "ulp_exp x = max (binade x - 52) (- 1074)"

definition round_even :: "real \<Rightarrow> int" where
  "round_even r =
     (if r - of_int \<lfloor>r\<rfloor> < 1 / 2 then \<lfloor>r\<rfloor>
      else if 1 / 2 < r - of_int \<lfloor>r\<rfloor> then \<lfloor>r\<rfloor> + 1
      else if even \<lfloor>r\<rfloor> then \<lfloor>r\<rfloor> else \<lfloor>r\<rfloor> + 1)"

definition fl :: "real \<Rightarrow> jsnum" where
  "fl x =
     (if x = 0 then Fin 0
      else
        let y = of_int (round_even (x / 2 powi ulp_exp x)) * 2 powi ulp_exp x
        in if 2 ^ 1024 \<le> y then PInf
           else if y \<le> - (2 ^ 1024) then NInf
           else Fin y)"

text \<open>Truthiness of a number: \<^verbatim>\<open>0\<close> and \<^verbatim>\<open>NaN\<close> are falsy, everything else is truthy.\<close>

fun truthy :: "jsnum \<Rightarrow> bool" where
  "truthy NaN = False"
| "truthy (Fin x) = (x \<noteq> 0)"
| "truthy NInf = True"
| "truthy PInf = True"

text \<open>\<^verbatim>\<open>a > b\<close>: false as soon as one side is \<^verbatim>\<open>NaN\<close>.\<close>

fun js_gt :: "jsnum \<Rightarrow> jsnum \<Rightarrow> bool" where
  "js_gt NaN b = False"
| "js_gt a NaN = False"
| "js_gt NInf b = False"
| "js_gt (Fin x) NInf = True"
| "js_gt (Fin x) (Fin y) = (y < x)"
| "js_gt (Fin x) PInf = False"
| "js_gt PInf PInf = False"
| "js_gt PInf b = True"

text \<open>\<^verbatim>\<open>a <= b\<close>, used to state bounds; it too is false on \<^verbatim>\<open>NaN\<close>.\<close>

fun js_le :: "jsnum \<Rightarrow> jsnum \<Rightarrow> bool" where
  "js_le NaN b = False"
| "js_le a NaN = False"
| "js_le NInf b = True"
| "js_le (Fin x) NInf = False"
| "js_le (Fin x) (Fin y) = (x \<le> y)"
| "js_le (Fin x) PInf = True"
| "js_le PInf PInf = True"
| "js_le PInf b = False"

text \<open>
  The four arithmetic operations: the special values combine as IEEE 754 says, and two
  finite operands give the rounded exact result.
\<close>

fun js_add :: "jsnum \<Rightarrow> jsnum \<Rightarrow> jsnum" where
  "js_add NaN b = NaN"
| "js_add a NaN = NaN"
| "js_add (Fin x) (Fin y) = fl (x + y)"
| "js_add PInf NInf = NaN"
| "js_add NInf PInf = NaN"
| "js_add PInf b = PInf"
| "js_add a PInf = PInf"
| "js_add NInf b = NInf"
| "js_add a NInf = NInf"

fun js_sub :: "jsnum \<Rightarrow> jsnum \<Rightarrow> jsnum" where
  "js_sub NaN b = NaN"
| "js_sub a NaN = NaN"
| "js_sub (Fin x) (Fin y) = fl (x - y)"
| "js_sub PInf PInf = NaN"
| "js_sub NInf NInf = NaN"
| "js_sub PInf b = PInf"
| "js_sub a PInf = NInf"
| "js_sub NInf b = NInf"
| "js_sub a NInf = PInf"

fun js_mul :: "jsnum \<Rightarrow> jsnum \<Rightarrow> jsnum" where
  "js_mul NaN b = NaN"
| "js_mul a NaN = NaN"
| "js_mul (Fin x) (Fin y) = fl (x * y)"
| "js_mul (Fin x) PInf = (if x = 0 then NaN else if 0 < x then PInf else NInf)"
| "js_mul (Fin x) NInf = (if x = 0 then NaN else if 0 < x then NInf else PInf)"
| "js_mul PInf (Fin y) = (if y = 0 then NaN else if 0 < y then PInf else NInf)"
| "js_mul NInf (Fin y) = (if y = 0 then NaN else if 0 < y then NInf else PInf)"
| "js_mul PInf PInf = PInf"
| "js_mul PInf NInf = NInf"
| "js_mul NInf PInf = NInf"
| "js_mul NInf NInf = PInf"

text \<open>
  Division never throws: a finite non-zero value divided by zero is an infinity,
  \<^verbatim>\<open>0 / 0\<close> and the quotient of two infinities are \<^verbatim>\<open>NaN\<close>.
\<close>

fun js_div :: "jsnum \<Rightarrow> jsnum \<Rightarrow> jsnum" where
  "js_div NaN b = NaN"
| "js_div a NaN = NaN"
| "js_div (Fin x) (Fin y) =
     (if y = 0 then (if x = 0 then NaN else if 0 < x then PInf else NInf)
      else fl (x / y))"
| "js_div (Fin x) PInf = Fin 0"
| "js_div (Fin x) NInf = Fin 0"
| "js_div PInf (Fin y) = (if y < 0 then NInf else PInf)"
| "js_div NInf (Fin y) = (if y < 0 then PInf else NInf)"
| "js_div PInf PInf = NaN"
| "js_div PInf NInf = NaN"
| "js_div NInf PInf = NaN"
| "js_div NInf NInf = NaN"

text \<open>\<^verbatim>\<open>Math.max\<close> and \<^verbatim>\<open>Math.min\<close> of two numbers: \<^verbatim>\<open>NaN\<close> if one of them is.\<close>

definition js_max :: "jsnum \<Rightarrow> jsnum \<Rightarrow> jsnum" where
  "js_max a b = (if a = NaN \<or> b = NaN then NaN else if js_gt a b then a else b)"

definition js_min :: "jsnum \<Rightarrow> jsnum \<Rightarrow> jsnum" where
  "js_min a b = (if a = NaN \<or> b = NaN then NaN else if js_gt a b then b else a)"

section \<open>The token bucket\<close>

text \<open>
  One accounting record per identity, the object \<^verbatim>\<open>{lastDrip: 0, content: 0}\<close> that
  \<^verbatim>\<open>accept\<close> creates and \<^verbatim>\<open>drip\<close> updates.
\<close>

record app =
  lastDrip :: jsnum
  content :: jsnum

text \<open>
  The object built by the constructor. \<open>bucketSize\<close> and \<open>tokensPerInterval\<close> are
  always assigned. \<open>interval\<close> is assigned on every path but one: a string that matches
  no \<^verbatim>\<open>case\<close> of the \<^verbatim>\<open>switch\<close> leaves the object without an own \<open>interval\<close>
  property, which is \<open>None\<close> here. \<open>bucket_content\<close> and \<open>bucket_lastDrip\<close> are the
  constructor's \<^verbatim>\<open>this.content\<close> and \<^verbatim>\<open>this.lastDrip\<close>; no method reads them.
  \<open>storage\<close> holds the own properties of the object used as a dictionary from
  identity to record.
\<close>

record bucket =
  bucketSize :: jsnum
  tokensPerInterval :: jsnum
  interval :: "jsnum option"
  bucket_content :: jsnum
  bucket_lastDrip :: jsnum
  storage :: "string \<rightharpoonup> app"

text \<open>The third argument of the constructor: a string or a number.\<close>

datatype interval_arg = Str string | Num jsnum

text \<open>
  The constructor. \<open>now\<close> is the clock reading \<^verbatim>\<open>+new Date()\<close>, a finite number of
  milliseconds.
\<close>

definition TokenBucket :: "jsnum \<Rightarrow> jsnum \<Rightarrow> interval_arg \<Rightarrow> real \<Rightarrow> bucket" where
  "TokenBucket bucketSize' tokensPerInterval' interval' now =
     \<lparr> bucketSize = bucketSize',
       tokensPerInterval = tokensPerInterval',
       interval =
         (case interval' of
            Str s \<Rightarrow>
              (if s = ''sec'' \<or> s = ''second'' then Some (Fin 1000)
               else if s = ''min'' \<or> s = ''minute'' then Some (Fin (1000 * 60))
               else if s = ''hr'' \<or> s = ''hour'' then Some (Fin (1000 * 60 * 60))
               else if s = ''day'' then Some (Fin (1000 * 60 * 60 * 24))
               else None)
          | Num n \<Rightarrow> Some n),
       bucket_content = Fin 0,
       bucket_lastDrip = Fin now,
       storage = Map.empty \<rparr>"

text \<open>
  The prototype object declares \<^verbatim>\<open>interval: 1000\<close>. Reading \<^verbatim>\<open>this.interval\<close>
  yields the own property when there is one and the prototype's value otherwise.
\<close>

definition prototype_interval :: jsnum where
  "prototype_interval = Fin 1000"

definition this_interval :: "bucket \<Rightarrow> jsnum" where
  "this_interval self = (case interval self of None \<Rightarrow> prototype_interval | Some v \<Rightarrow> v)"

text \<open>
  \<^verbatim>\<open>drip\<close> mutates the record it is given; the model returns the updated record. The
  clock is read only on the second path.
\<close>

definition drip :: "bucket \<Rightarrow> real \<Rightarrow> app \<Rightarrow> app" where
  "drip self now a =
     (if \<not> truthy (tokensPerInterval self) then a\<lparr>content := bucketSize self\<rparr>
      else
        let deltaMS = js_max (js_sub (Fin now) (lastDrip a)) (Fin 0);
            a1 = a\<lparr>lastDrip := Fin now\<rparr>;
            dripAmount = js_mul deltaMS (js_div (tokensPerInterval self) (this_interval self))
        in a1\<lparr>content := js_min (js_add (content a1) dripAmount) (bucketSize self)\<rparr>)"

text \<open>
  \<^verbatim>\<open>uniqueID || Math.random().toString(36).slice(2)\<close>: an omitted or empty identity
  is replaced by the generated string \<open>rnd\<close>, an input of the model.
\<close>

definition resolveID :: "string \<Rightarrow> string option \<Rightarrow> string" where
  "resolveID rnd uniqueID =
     (case uniqueID of None \<Rightarrow> rnd | Some s \<Rightarrow> (if s = [] then rnd else s))"

definition fresh_app :: app where
  "fresh_app = \<lparr> lastDrip = Fin 0, content = Fin 0 \<rparr>"

text \<open>
  \<^verbatim>\<open>self.storage[uniqueID] || {lastDrip: 0, content: 0}\<close>. The storage object is a
  plain object, so a name that is not an own property is looked up in
  \<^verbatim>\<open>Object.prototype\<close>, whose members are listed here as the language defines them.
  A member found there (a function, or the prototype itself for \<^verbatim>\<open>__proto__\<close>) is an
  object, hence truthy, and is taken as the record; it has no \<^verbatim>\<open>lastDrip\<close> and no
  \<^verbatim>\<open>content\<close>, which read \<^verbatim>\<open>undefined\<close>. A stored record is an object too. The
  fields that \<^verbatim>\<open>drip\<close> and \<^verbatim>\<open>accept\<close> write to an inherited member are followed
  under the identity that reached it.
\<close>

definition Object_prototype :: "string list" where
  "Object_prototype =
     [''constructor'', ''__defineGetter__'', ''__defineSetter__'', ''hasOwnProperty'',
      ''__lookupGetter__'', ''__lookupSetter__'', ''isPrototypeOf'',
      ''propertyIsEnumerable'', ''toString'', ''valueOf'', ''__proto__'',
      ''toLocaleString'']"

definition inherited_app :: app where
  "inherited_app = \<lparr> lastDrip = NaN, content = NaN \<rparr>"

definition lookup_app :: "bucket \<Rightarrow> string \<Rightarrow> app" where
  "lookup_app self uid =
     (case storage self uid of
        Some a \<Rightarrow> a
      | None \<Rightarrow> if uid \<in> set Object_prototype then inherited_app else fresh_app)"

text \<open>
  \<^verbatim>\<open>accept\<close> returns its boolean together with the bucket after the call. \<open>now\<close> is
  the clock reading that \<^verbatim>\<open>drip\<close> would take during this call.
\<close>

definition accept :: "bucket \<Rightarrow> real \<Rightarrow> string \<Rightarrow> jsnum \<Rightarrow> string option \<Rightarrow> bool \<times> bucket" where
  "accept self now rnd count uniqueID =
     (let uid = resolveID rnd uniqueID;
          a = lookup_app self uid;
          self1 = self\<lparr>storage := (storage self)(uid \<mapsto> a)\<rparr>
      in if \<not> truthy (bucketSize self1) then (True, self1)
         else if js_gt count (bucketSize self1) then (False, self1)
         else
           let a' = drip self1 now a;
               self2 = self1\<lparr>storage := (storage self1)(uid \<mapsto> a')\<rparr>
           in if js_gt count (content a') then (False, self2)
              else (True, self2\<lparr>storage :=
                      (storage self2)(uid \<mapsto> a'\<lparr>content := js_sub (content a') count\<rparr>)\<rparr>))"

section \<open>Definitions used to state the properties\<close>

fun is_fin :: "jsnum \<Rightarrow> bool" where
  "is_fin (Fin x) = True"
| "is_fin a = False"

text \<open>A number that is a double: a special value, or a real that rounding leaves alone.\<close>

fun is_double :: "jsnum \<Rightarrow> bool" where
  "is_double (Fin x) = (fl x = Fin x)"
| "is_double a = True"

text \<open>
  The level after a refill as the specification words it, in exact real arithmetic:
  the elapsed time is clamped at zero and the level grows by elapsed time times rate over
  interval, capped at the capacity.
\<close>

definition refill_level :: "real \<Rightarrow> real \<Rightarrow> real \<Rightarrow> real \<Rightarrow> real \<Rightarrow> real \<Rightarrow> real" where
  "refill_level capacity refillRate refillInterval now lastRefill level =
     (let elapsed = max (now - lastRefill) 0
      in min (level + elapsed * (refillRate / refillInterval)) capacity)"

text \<open>
  A caller's sequence of \<^verbatim>\<open>accept\<close> calls, each with its clock reading, generated
  string, count and identity; the result lists the bucket after each call.
\<close>

type_synonym call = "real \<times> string \<times> jsnum \<times> string option"

fun accept_seq :: "bucket \<Rightarrow> call list \<Rightarrow> bucket list" where
  "accept_seq self [] = []"
| "accept_seq self ((now, rnd, count, uniqueID) # calls) =
     (let self' = snd (accept self now rnd count uniqueID)
      in self' # accept_seq self' calls)"


section \<open>Facts about rounding\<close>

lemma round_even_ge_floor: "\<lfloor>r\<rfloor> \<le> round_even r"
  by (simp add: round_even_def)

lemma round_even_le_ceiling: "round_even r \<le> \<lceil>r\<rceil>"
  by (auto simp: round_even_def ceiling_altdef)

lemma round_even_of_int [simp]: "round_even (of_int n) = n"
  by (simp add: round_even_def)

lemma round_even_le: "r \<le> of_int j \<Longrightarrow> round_even r \<le> j"
  using round_even_le_ceiling [of r] by (simp add: ceiling_le_iff order_trans)

lemma round_even_ge: "of_int j \<le> r \<Longrightarrow> j \<le> round_even r"
  using round_even_ge_floor [of r] by (meson le_floor_iff order_trans)

lemma powr2_int: "2 powr real_of_int n = (2::real) powi n"
  by (simp add: powr_real_of_int')

lemma floor_log2_iff:
  assumes "0 < x"
  shows "\<lfloor>log 2 x\<rfloor> = k \<longleftrightarrow> 2 powi k \<le> x \<and> x < 2 powi (k + 1)"
proof -
  have e: "real_of_int k + 1 = real_of_int (k + 1)" by simp
  show ?thesis
    using floor_log_eq_powr_iff [OF assms, of 2 k] unfolding e powr2_int by simp
qed

lemma log2_bounds:
  assumes "x \<noteq> 0"
  shows "2 powi \<lfloor>log 2 \<bar>x\<bar>\<rfloor> \<le> \<bar>x\<bar>" and "\<bar>x\<bar> < 2 powi (\<lfloor>log 2 \<bar>x\<bar>\<rfloor> + 1)"
proof -
  have pos: "0 < \<bar>x\<bar>" using assms by simp
  show "2 powi \<lfloor>log 2 \<bar>x\<bar>\<rfloor> \<le> \<bar>x\<bar>" and "\<bar>x\<bar> < 2 powi (\<lfloor>log 2 \<bar>x\<bar>\<rfloor> + 1)"
    using floor_log2_iff [OF pos, of "\<lfloor>log 2 \<bar>x\<bar>\<rfloor>"] by simp_all
qed

lemma log2_eq:
  assumes "2 powi k \<le> \<bar>x\<bar>" "\<bar>x\<bar> < 2 powi (k + 1)"
  shows "\<lfloor>log 2 \<bar>x\<bar>\<rfloor> = k"
proof -
  have "(0::real) < 2 powi k" by simp
  then have pos: "0 < \<bar>x\<bar>" using assms(1) by linarith
  show ?thesis
    using assms floor_log2_iff [OF pos, of k] by simp
qed

lemma log2_le:
  assumes "x \<noteq> 0" "\<bar>x\<bar> < 2 powi j"
  shows "\<lfloor>log 2 \<bar>x\<bar>\<rfloor> < j"
proof (rule ccontr)
  assume "\<not> \<lfloor>log 2 \<bar>x\<bar>\<rfloor> < j"
  then have "j \<le> \<lfloor>log 2 \<bar>x\<bar>\<rfloor>" by simp
  then have "(2::real) powi j \<le> 2 powi \<lfloor>log 2 \<bar>x\<bar>\<rfloor>"
    by (intro power_int_increasing) simp_all
  with log2_bounds(1) [OF assms(1)] assms(2) show False by linarith
qed

lemma log2_ge:
  assumes "2 powi j \<le> \<bar>x\<bar>"
  shows "j \<le> \<lfloor>log 2 \<bar>x\<bar>\<rfloor>"
proof (rule ccontr)
  have "\<not> (2::real) powi j \<le> 0" by (simp add: not_le)
  then have x: "x \<noteq> 0" using assms by auto
  assume "\<not> j \<le> \<lfloor>log 2 \<bar>x\<bar>\<rfloor>"
  then have "\<lfloor>log 2 \<bar>x\<bar>\<rfloor> + 1 \<le> j" by simp
  then have "(2::real) powi (\<lfloor>log 2 \<bar>x\<bar>\<rfloor> + 1) \<le> 2 powi j"
    by (intro power_int_increasing) simp_all
  with log2_bounds(2) [OF x] assms show False by linarith
qed

text \<open>The binade is the integer part of the binary logarithm.\<close>

lemma binade_log:
  assumes "x \<noteq> 0"
  shows "binade x = \<lfloor>log 2 \<bar>x\<bar>\<rfloor>"
proof (cases "1 \<le> \<bar>x\<bar>")
  case True
  define k where "k = \<lfloor>log 2 \<bar>x\<bar>\<rfloor>"
  define n where "n = \<lfloor>\<bar>x\<bar>\<rfloor>"
  have "(2::real) powi 0 \<le> \<bar>x\<bar>" using True by simp
  then have k0: "0 \<le> k" unfolding k_def by (rule log2_ge)
  have lo: "2 powi k \<le> \<bar>x\<bar>" and hi: "\<bar>x\<bar> < 2 powi (k + 1)"
    using log2_bounds [OF assms] by (simp_all add: k_def)
  have pk: "(2::real) powi k = of_int (2 ^ nat k)"
    using k0 by (simp add: power_int_def)
  have n1: "1 \<le> n" using True by (simp add: n_def le_floor_iff)
  have "2 ^ nat k \<le> n" using lo unfolding pk n_def by (simp only: le_floor_iff)
  then have "2 powi k \<le> \<bar>real_of_int n\<bar>" using n1 unfolding pk by simp
  moreover have "real_of_int n \<le> \<bar>x\<bar>" by (simp add: n_def)
  then have "\<bar>real_of_int n\<bar> < 2 powi (k + 1)" using hi n1 by simp
  ultimately have "\<lfloor>log 2 \<bar>real_of_int n\<bar>\<rfloor> = k" by (rule log2_eq)
  then have "\<lfloor>log 2 (real_of_int n)\<rfloor> = k" using n1 by simp
  then have "bitlen n - 1 = k" using n1 by (simp add: bitlen_alt_def)
  then show ?thesis using True by (simp add: binade_def n_def k_def)
next
  case False
  define k where "k = \<lfloor>log 2 \<bar>x\<bar>\<rfloor>"
  define j where "j = - k - 1"
  define y where "y = 1 / \<bar>x\<bar>"
  define m where "m = \<lceil>y\<rceil> - 1"
  have xpos: "0 < \<bar>x\<bar>" using assms by simp
  have "\<bar>x\<bar> < 2 powi 0" using False by simp
  with assms have "k < 0" unfolding k_def by (rule log2_le)
  then have j0: "0 \<le> j" by (simp add: j_def)
  have lo: "2 powi k \<le> \<bar>x\<bar>" and hi: "\<bar>x\<bar> < 2 powi (k + 1)"
    using log2_bounds [OF assms] by (simp_all add: k_def)
  have j1: "j + 1 = - k" and j2: "j = - (k + 1)" by (simp_all add: j_def)
  have e1: "(2::real) powi k = 1 / 2 powi (j + 1)"
    unfolding j1 by (simp add: power_int_minus_divide)
  have e2: "(2::real) powi (k + 1) = 1 / 2 powi j"
    unfolding j2 by (simp only: power_int_minus_divide) simp
  have ylo: "2 powi j < y"
    using hi xpos unfolding e2 y_def by (simp add: field_simps)
  have yhi: "y \<le> 2 powi (j + 1)"
    using lo xpos unfolding e1 y_def by (simp add: field_simps)
  have pj: "(2::real) powi j = of_int (2 ^ nat j)"
    and pj1: "(2::real) powi (j + 1) = of_int (2 ^ nat (j + 1))"
    using j0 by (simp_all add: power_int_def)
  have "2 ^ nat j < \<lceil>y\<rceil>" using ylo unfolding pj by (simp only: less_ceiling_iff)
  then have mlo: "2 ^ nat j \<le> m" by (simp add: m_def)
  have "\<lceil>y\<rceil> \<le> 2 ^ nat (j + 1)" using yhi unfolding pj1 by (simp only: ceiling_le_iff)
  then have mhi: "m < 2 ^ nat (j + 1)" by (simp add: m_def)
  have m1: "1 \<le> m" using mlo by (smt (verit) one_le_power)
  have "2 powi j \<le> \<bar>real_of_int m\<bar>" using mlo m1 unfolding pj by simp
  moreover have "\<bar>real_of_int m\<bar> < 2 powi (j + 1)"
    using mhi m1 unfolding pj1 by simp
  ultimately have "\<lfloor>log 2 \<bar>real_of_int m\<bar>\<rfloor> = j" by (rule log2_eq)
  then have "\<lfloor>log 2 (real_of_int m)\<rfloor> = j" using m1 by simp
  then have "bitlen m = j + 1" using m1 by (simp add: bitlen_alt_def)
  then have "- bitlen m = k" by (simp add: j_def)
  then show ?thesis using False by (simp add: binade_def m_def y_def k_def)
qed

lemma ulp_exp_log: "x \<noteq> 0 \<Longrightarrow> ulp_exp x = max (\<lfloor>log 2 \<bar>x\<bar>\<rfloor> - 52) (- 1074)"
  by (simp add: ulp_exp_def binade_log)


lemma ulp_exp_ge [simp]: "- 1074 \<le> ulp_exp x"
  by (simp add: ulp_exp_def)

lemma ulp_pos [simp]: "(0::real) < 2 powi ulp_exp x"
  by simp

lemma quotient_bound:
  assumes "x \<noteq> 0"
  shows "\<bar>x\<bar> / 2 powi ulp_exp x < 2 ^ 53"
proof -
  let ?k = "\<lfloor>log 2 \<bar>x\<bar>\<rfloor>"
  have "?k - 52 \<le> ulp_exp x" using assms by (simp add: ulp_exp_log)
  then have "?k + 1 \<le> ulp_exp x + 53" by simp
  then have "(2::real) powi (?k + 1) \<le> 2 powi (ulp_exp x + 53)"
    by (intro power_int_increasing) simp_all
  also have "\<dots> = 2 powi ulp_exp x * 2 ^ 53"
    by (simp add: power_int_add)
  finally have "\<bar>x\<bar> < 2 powi ulp_exp x * 2 ^ 53"
    using log2_bounds(2) [OF assms] by linarith
  then show ?thesis
    by (simp add: pos_divide_less_eq mult.commute)
qed



text \<open>A value \<open>m * 2^e\<close> with fewer than 54 bits in \<open>m\<close> is a double.\<close>

lemma fl_exact:
  assumes m: "\<bar>m\<bar> < 2 ^ 53" and e: "- 1074 \<le> e"
    and fin: "\<bar>real_of_int m * 2 powi e\<bar> < 2 ^ 1024"
  shows "fl (of_int m * 2 powi e) = Fin (of_int m * 2 powi e)"
proof (cases "m = 0")
  case True
  then show ?thesis by (simp add: fl_def)
next
  case False
  define x where "x = real_of_int m * 2 powi e"
  define u :: real where "u = 2 powi ulp_exp x"
  have u: "0 < u" by (simp add: u_def)
  have x: "x \<noteq> 0" using False by (simp add: x_def)
  have "\<bar>x\<bar> = \<bar>real_of_int m\<bar> * 2 powi e" by (simp add: x_def abs_mult)
  also have "\<dots> < 2 ^ 53 * 2 powi e"
  proof -
    have "\<bar>real_of_int m\<bar> < 2 ^ 53" using m by (metis of_int_abs of_int_less_numeral_power_cancel_iff)
    then show ?thesis by simp
  qed
  also have "\<dots> = 2 powi (e + 53)" by (simp add: power_int_add)
  finally have "\<lfloor>log 2 \<bar>x\<bar>\<rfloor> < e + 53" using x by (intro log2_le)
  then have le: "ulp_exp x \<le> e" using e x by (simp add: ulp_exp_log)
  define d where "d = nat (e - ulp_exp x)"
  have "e = ulp_exp x + int d" using le by (simp add: d_def)
  then have "(2::real) powi e = u * 2 ^ d"
    unfolding u_def by (metis power_int_add power_int_of_nat zero_neq_numeral)
  then have xu: "x = real_of_int (m * 2 ^ d) * u"
    by (simp add: x_def)
  then have q: "x / u = of_int (m * 2 ^ d)"
    using u by simp
  have "round_even (x / u) = m * 2 ^ d"
    unfolding q by (rule round_even_of_int)
  then have "real_of_int (round_even (x / u)) * u = x"
    using xu by simp
  then have "fl x = Fin x"
    using x fin unfolding fl_def Let_def u_def [symmetric] x_def [symmetric]
    by (simp add: abs_less_iff not_le)
  then show ?thesis by (simp add: x_def)
qed

lemma fl_cases:
  assumes "x \<noteq> 0"
  obtains m where "m = round_even (x / 2 powi ulp_exp x)"
    and "fl x = (if 2 ^ 1024 \<le> real_of_int m * 2 powi ulp_exp x then PInf
                 else if real_of_int m * 2 powi ulp_exp x \<le> - (2 ^ 1024) then NInf
                 else Fin (real_of_int m * 2 powi ulp_exp x))"
  using assms by (simp add: fl_def Let_def)

lemma fl_idem:
  assumes "fl x = Fin y"
  shows "fl y = Fin y"
proof (cases "x = 0")
  case True
  then show ?thesis using assms by (auto simp: fl_def)
next
  case False
  define e where "e = ulp_exp x"
  define m where "m = round_even (x / 2 powi e)"
  have y: "y = real_of_int m * 2 powi e" and fin: "\<bar>real_of_int m * 2 powi e\<bar> < 2 ^ 1024"
    using assms False unfolding fl_def Let_def e_def [symmetric] m_def [symmetric]
    by (auto split: if_splits)
  have e: "- 1074 \<le> e" by (simp add: e_def)
  have q: "\<bar>x\<bar> / 2 powi e < 2 ^ 53"
    using quotient_bound [OF False] by (simp add: e_def)
  have "x / 2 powi e \<le> \<bar>x\<bar> / 2 powi e"
    by (intro divide_right_mono) simp_all
  then have up: "x / 2 powi e \<le> of_int (2 ^ 53)"
    using q by simp
  have "(- \<bar>x\<bar>) / 2 powi e \<le> x / 2 powi e"
    by (intro divide_right_mono) simp_all
  then have lo: "of_int (- (2 ^ 53)) \<le> x / 2 powi e"
    using q by simp
  have m_le: "m \<le> 2 ^ 53" unfolding m_def using up by (rule round_even_le)
  have m_ge: "- (2 ^ 53) \<le> m" unfolding m_def using lo by (rule round_even_ge)
  consider "\<bar>m\<bar> < 2 ^ 53" | "m = 2 ^ 53" | "m = - (2 ^ 53)"
    using m_le m_ge by linarith
  then show ?thesis
  proof cases
    case 1
    then show ?thesis unfolding y using e fin by (rule fl_exact)
  next
    case 2
    have p: "real_of_int m * 2 powi e = real_of_int 1 * 2 powi (e + 53)"
      unfolding 2 by (simp add: power_int_add)
    show ?thesis
      unfolding y p using fin unfolding p by (intro fl_exact) (use e in simp_all)
  next
    case 3
    have p: "real_of_int m * 2 powi e = real_of_int (- 1) * 2 powi (e + 53)"
      unfolding 3 by (simp add: power_int_add)
    show ?thesis
      unfolding y p using fin unfolding p by (intro fl_exact) (use e in simp_all)
  qed
qed



lemma ulp_exp_eq:
  assumes "2 powi k \<le> \<bar>x\<bar>" "\<bar>x\<bar> < 2 powi (k + 1)"
  shows "ulp_exp x = max (k - 52) (- 1074)"
proof -
  have "\<not> (2::real) powi k \<le> 0" by (simp add: not_le)
  then have "x \<noteq> 0" using assms(1) by auto
  then show ?thesis using log2_eq [OF assms] by (simp add: ulp_exp_log)
qed

text \<open>Evaluating a rounding once the binade \<open>k\<close> of the argument is known.\<close>

lemma fl_eval:
  assumes "2 powi k \<le> \<bar>x\<bar>" "\<bar>x\<bar> < 2 powi (k + 1)"
  shows "fl x =
    (let u = 2 powi (max (k - 52) (- 1074));
         y = of_int (round_even (x / u)) * u
     in if 2 ^ 1024 \<le> y then PInf else if y \<le> - (2 ^ 1024) then NInf else Fin y)"
proof -
  have "\<not> (2::real) powi k \<le> 0" by (simp add: not_le)
  then have "x \<noteq> 0" using assms(1) by auto
  then show ?thesis
    by (simp add: fl_def Let_def ulp_exp_eq [OF assms])
qed

lemma fl_of_int: "\<bar>n\<bar> < 2 ^ 53 \<Longrightarrow> fl (of_int n) = Fin (of_int n)"
  using fl_exact [of n 0] by simp

lemma fl_0 [simp]: "fl 0 = Fin 0"
  by (simp add: fl_def)

lemma fl_1 [simp]: "fl 1 = Fin 1"
  using fl_of_int [of 1] by simp

lemma fl_numeral [simp]: "(numeral w :: int) < 2 ^ 53 \<Longrightarrow> fl (numeral w) = Fin (numeral w)"
  using fl_of_int [of "numeral w"] by simp

lemma fl_neg_numeral [simp]:
  "(numeral w :: int) < 2 ^ 53 \<Longrightarrow> fl (- numeral w) = Fin (- numeral w)"
  using fl_of_int [of "- numeral w"] by simp

section \<open>Facts about numbers, \<open>drip\<close> and \<open>accept\<close>\<close>

lemma js_le_trans: "js_le a b \<Longrightarrow> js_le b c \<Longrightarrow> js_le a c"
  by (cases a; cases b; cases c) auto

lemma js_le_refl: "js_le a b \<Longrightarrow> js_le a a"
  by (cases a; cases b) auto

lemma js_min_idem: "js_min (js_min x cap) cap = js_min x cap"
  by (cases x; cases cap) (auto simp: js_min_def)

lemma js_gt_not_NaN: "js_gt a b \<Longrightarrow> b \<noteq> NaN"
  by (cases a; cases b) auto

lemma drip_storage [simp]: "drip (self\<lparr>storage := s\<rparr>) now a = drip self now a"
  by (simp add: drip_def this_interval_def)

lemma lookup_app_upd [simp]:
  "lookup_app (self\<lparr>storage := (storage self)(k \<mapsto> a)\<rparr>) k = a"
  by (simp add: lookup_app_def)

lemma accept_reject:
  assumes "truthy (bucketSize self)" "\<not> js_gt count (bucketSize self)"
    "js_gt count (content (drip self now (lookup_app self (resolveID rnd uniqueID))))"
  shows "accept self now rnd count uniqueID =
    (False, self\<lparr>storage := (storage self)(resolveID rnd uniqueID \<mapsto>
               drip self now (lookup_app self (resolveID rnd uniqueID)))\<rparr>)"
  using assms by (simp add: accept_def Let_def)

section \<open>The constructor\<close>

text \<open>
  C2, as the specification states it: a string outside the recognised set leaves the
  interval reading as a falsy value. It does not: the read falls through to the
  prototype's \<^verbatim>\<open>interval: 1000\<close>.
\<close>

theorem unknown_interval_counterexample:
  "this_interval (TokenBucket (Fin 5) (Fin 5) (Str ''week'') 0) = Fin 1000 \<and>
   truthy (this_interval (TokenBucket (Fin 5) (Fin 5) (Str ''week'') 0))"
  by (simp add: TokenBucket_def this_interval_def prototype_interval_def)

text \<open>
  C2, amended: for every interval argument that is a string outside
  \<open>sec, second, min, minute, hr, hour, day\<close>, the constructed bucket has no own
  interval, and the interval read by the refill computation is the prototype's 1000.
\<close>

theorem unknown_interval_prototype:
  assumes "s \<notin> {''sec'', ''second'', ''min'', ''minute'', ''hr'', ''hour'', ''day''}"
  shows "interval (TokenBucket c r (Str s) now) = None \<and>
         this_interval (TokenBucket c r (Str s) now) = Fin 1000"
  using assms by (simp add: TokenBucket_def this_interval_def prototype_interval_def)

theorem unknown_interval_prototype_witness:
  "interval (TokenBucket (Fin 5) (Fin 5) (Str ''week'') 0) = None \<and>
   this_interval (TokenBucket (Fin 5) (Fin 5) (Str ''week'') 0) = Fin 1000"
  using unknown_interval_prototype [of "''week''" "Fin 5" "Fin 5" 0] by simp

section \<open>Admission\<close>

text \<open>
  C3: when the bucket size is falsy (zero, or \<open>NaN\<close> for an omitted one), \<open>accept\<close>
  returns true for every count and every identity, and the record kept for the identity
  afterwards is the one that was stored before the call (the fresh record when there
  was none): its level is not modified.
\<close>

theorem accept_unlimited:
  assumes "\<not> truthy (bucketSize self)"
  shows "fst (accept self now rnd count uniqueID) = True \<and>
         storage (snd (accept self now rnd count uniqueID)) (resolveID rnd uniqueID)
           = Some (lookup_app self (resolveID rnd uniqueID))"
  using assms by (simp add: accept_def Let_def)

theorem accept_unlimited_witness:
  "\<not> truthy (bucketSize (TokenBucket (Fin 0) (Fin 1) (Num (Fin 1000)) 0)) \<and>
   fst (accept (TokenBucket (Fin 0) (Fin 1) (Num (Fin 1000)) 0) 7 ''r'' (Fin (- 3)) (Some ''u'')) \<and>
   storage (snd (accept (TokenBucket (Fin 0) (Fin 1) (Num (Fin 1000)) 0) 7 ''r'' (Fin (- 3))
              (Some ''u''))) ''u'' = Some fresh_app"
  using accept_unlimited [of "TokenBucket (Fin 0) (Fin 1) (Num (Fin 1000)) 0" 7 "''r''"
      "Fin (- 3)" "Some ''u''"]
  by (simp add: TokenBucket_def resolveID_def lookup_app_def Object_prototype_def)

text \<open>
  C4: when the bucket size is truthy and the count is greater than it, \<open>accept\<close>
  returns false whatever the stored record and the clock reading are, and no refill has
  taken place: the record kept for the identity is the one found before the call.
\<close>

theorem accept_oversized:
  assumes "truthy (bucketSize self)" and "js_gt count (bucketSize self)"
  shows "fst (accept self now rnd count uniqueID) = False \<and>
         storage (snd (accept self now rnd count uniqueID)) (resolveID rnd uniqueID)
           = Some (lookup_app self (resolveID rnd uniqueID))"
  using assms by (simp add: accept_def Let_def)

theorem accept_oversized_witness:
  "truthy (bucketSize (TokenBucket (Fin 5) (Fin 5) (Str ''second'') 0)) \<and>
   js_gt (Fin 6) (bucketSize (TokenBucket (Fin 5) (Fin 5) (Str ''second'') 0)) \<and>
   fst (accept (TokenBucket (Fin 5) (Fin 5) (Str ''second'') 0) 1000 ''r'' (Fin 6) (Some ''u''))
     = False \<and>
   storage (snd (accept (TokenBucket (Fin 5) (Fin 5) (Str ''second'') 0) 1000 ''r'' (Fin 6)
              (Some ''u''))) ''u'' = Some fresh_app"
  using accept_oversized [of "TokenBucket (Fin 5) (Fin 5) (Str ''second'') 0" "Fin 6" 1000
      "''r''" "Some ''u''"]
  by (simp add: TokenBucket_def resolveID_def lookup_app_def Object_prototype_def)



section \<open>Sequences of calls\<close>


lemma accept_tokensPerInterval [simp]:
  "tokensPerInterval (snd (accept self now rnd count uniqueID)) = tokensPerInterval self"
  by (simp add: accept_def Let_def)

lemma accept_this_interval [simp]:
  "this_interval (snd (accept self now rnd count uniqueID)) = this_interval self"
  by (simp add: accept_def Let_def this_interval_def)

lemma accept_other:
  "k \<noteq> resolveID rnd uniqueID \<Longrightarrow>
   lookup_app (snd (accept self now rnd count uniqueID)) k = lookup_app self k"
  by (simp add: accept_def Let_def lookup_app_def)

lemma accept_same:
  "lookup_app (snd (accept self now rnd count uniqueID)) (resolveID rnd uniqueID) =
     (let a = lookup_app self (resolveID rnd uniqueID) in
      if \<not> truthy (bucketSize self) then a
      else if js_gt count (bucketSize self) then a
      else if js_gt count (content (drip self now a)) then drip self now a
      else (drip self now a)\<lparr>content := js_sub (content (drip self now a)) count\<rparr>)"
  by (simp add: accept_def Let_def)

lemma drip_lastDrip:
  "lastDrip (drip self now a) = lastDrip a \<or> lastDrip (drip self now a) = Fin now"
  by (simp add: drip_def Let_def)

lemma accept_lastDrip:
  "lastDrip (lookup_app (snd (accept self now rnd count uniqueID)) k) = lastDrip (lookup_app self k) \<or>
   lastDrip (lookup_app (snd (accept self now rnd count uniqueID)) k) = Fin now"
proof (cases "k = resolveID rnd uniqueID")
  case False
  then show ?thesis by (simp add: accept_other)
next
  case True
  show ?thesis
    unfolding True accept_same Let_def
    using drip_lastDrip [of self now "lookup_app self (resolveID rnd uniqueID)"]
    by auto
qed

text \<open>
  C7, as the specification states it: the time stamp never decreases, whatever the clock
  readings. \<open>drip\<close> stores the clock reading even when it is earlier than the stored
  time stamp: a call at 10 followed by a call at 5 takes the time stamp from 10 to 5.
\<close>

theorem lastDrip_counterexample:
  "map (\<lambda>b. lastDrip (lookup_app b ''a''))
     (accept_seq (TokenBucket (Fin 5) (Fin 1) (Num (Fin 1)) 0)
        [(10, ''r'', Fin 1, Some ''a''), (5, ''r'', Fin 1, Some ''a'')])
     = [Fin 10, Fin 5] \<and>
   \<not> js_le (Fin 10) (Fin 5)"
  by (simp add: TokenBucket_def accept_def drip_def this_interval_def resolveID_def lookup_app_def
      fresh_app_def js_max_def js_min_def Let_def)

lemma lastDrip_sorted_along:
  assumes "sorted (map fst calls)"
    and "\<forall>c \<in> set calls. js_le (lastDrip (lookup_app self uid)) (Fin (fst c))"
  shows "sorted_wrt js_le (map (\<lambda>b. lastDrip (lookup_app b uid)) (self # accept_seq self calls))"
  using assms
proof (induction calls arbitrary: self)
  case Nil
  then show ?case by simp
next
  case (Cons c calls)
  obtain now rnd count uniqueID where c: "c = (now, rnd, count, uniqueID)"
    by (cases c) auto
  let ?ld = "\<lambda>b. lastDrip (lookup_app b uid)"
  let ?self' = "snd (accept self now rnd count uniqueID)"
  have le_now: "js_le (?ld self) (Fin now)"
    using Cons.prems(2) c by simp
  have later: "\<forall>d \<in> set calls. now \<le> fst d"
    using Cons.prems(1) c by simp
  have step: "?ld ?self' = ?ld self \<or> ?ld ?self' = Fin now"
    by (rule accept_lastDrip)
  have le_step: "js_le (?ld self) (?ld ?self')"
    using step le_now js_le_refl [OF le_now] by auto
  have "\<forall>d \<in> set calls. js_le (?ld ?self') (Fin (fst d))"
    using step later Cons.prems(2) by auto
  moreover have "sorted (map fst calls)"
    using Cons.prems(1) by simp
  ultimately have IH: "sorted_wrt js_le (map ?ld (?self' # accept_seq ?self' calls))"
    by (rule Cons.IH [rotated])
  have "\<forall>y \<in> set (map ?ld (?self' # accept_seq ?self' calls)). js_le (?ld self) y"
  proof
    fix y assume y: "y \<in> set (map ?ld (?self' # accept_seq ?self' calls))"
    show "js_le (?ld self) y"
    proof (cases "y = ?ld ?self'")
      case True
      then show ?thesis using le_step by simp
    next
      case False
      then have "y \<in> set (map ?ld (accept_seq ?self' calls))" using y by auto
      then have "js_le (?ld ?self') y" using IH by auto
      then show ?thesis using le_step js_le_trans by blast
    qed
  qed
  then show ?case
    using IH by (simp add: c Let_def)
qed

text \<open>
  C7, amended: each call leaves the time stamp of a record as it was or sets it to the
  call's clock reading; so for every sequence of calls whose clock readings do not
  decrease and are not earlier than the record's time stamp at the start, the time stamp
  of the record never decreases along the sequence.
\<close>

theorem lastDrip_monotone:
  assumes "sorted (map fst calls)"
    and "list_all (\<lambda>(now, rnd, count, uniqueID).
           js_le (lastDrip (lookup_app self uid)) (Fin now)) calls"
  shows "sorted_wrt js_le (map (\<lambda>b. lastDrip (lookup_app b uid)) (self # accept_seq self calls))"
proof -
  have "\<forall>c \<in> set calls. js_le (lastDrip (lookup_app self uid)) (Fin (fst c))"
    using assms(2) by (auto simp: list_all_iff)
  with assms(1) show ?thesis by (rule lastDrip_sorted_along)
qed

theorem lastDrip_monotone_witness:
  "sorted (map fst [(1000::real, ''r'', Fin 5, Some ''u1''), (1000, ''r'', Fin 1, Some ''u1''),
                    (2000, ''r'', Fin 5, Some ''u1'')]) \<and>
   list_all (\<lambda>(now, rnd, count, uniqueID).
       js_le (lastDrip (lookup_app (TokenBucket (Fin 5) (Fin 5) (Str ''second'') 0) ''u1''))
         (Fin now))
     [(1000::real, ''r'', Fin 5, Some ''u1''), (1000, ''r'', Fin 1, Some ''u1''),
      (2000, ''r'', Fin 5, Some ''u1'')] \<and>
   sorted_wrt js_le (map (\<lambda>b. lastDrip (lookup_app b ''u1''))
     (TokenBucket (Fin 5) (Fin 5) (Str ''second'') 0 #
      accept_seq (TokenBucket (Fin 5) (Fin 5) (Str ''second'') 0)
        [(1000, ''r'', Fin 5, Some ''u1''), (1000, ''r'', Fin 1, Some ''u1''),
         (2000, ''r'', Fin 5, Some ''u1'')]))"
proof -
  let ?b = "TokenBucket (Fin 5) (Fin 5) (Str ''second'') 0"
  let ?calls = "[(1000::real, ''r'', Fin 5, Some ''u1''), (1000, ''r'', Fin 1, Some ''u1''),
                 (2000, ''r'', Fin 5, Some ''u1'')]"
  have h1: "sorted (map fst ?calls)" by simp
  have h2: "list_all (\<lambda>(now, rnd, count, uniqueID).
      js_le (lastDrip (lookup_app ?b ''u1'')) (Fin now)) ?calls"
    by (simp add: TokenBucket_def lookup_app_def fresh_app_def Object_prototype_def)
  show ?thesis
    by (intro conjI h1 h2 lastDrip_monotone [OF h1 h2])
qed

section \<open>Oversized requests leave the bucket alone\<close>




section \<open>Rejection\<close>

lemma is_double_fl: "is_double (fl x)"
  by (cases "fl x") (simp_all add: fl_idem)

lemma is_double_js_add: "is_double (js_add a b)"
  by (cases a; cases b) (simp_all add: is_double_fl)

lemma is_double_js_min: "is_double a \<Longrightarrow> is_double b \<Longrightarrow> is_double (js_min a b)"
  by (simp add: js_min_def)

lemma js_add_zero: "a \<noteq> NaN \<Longrightarrow> is_double a \<Longrightarrow> js_add a (Fin 0) = a"
  by (cases a) auto

lemma is_double_drip:
  assumes "truthy (tokensPerInterval self)" "is_double (bucketSize self)"
  shows "is_double (content (drip self now a))"
  using assms by (simp add: drip_def Let_def is_double_js_min is_double_js_add)

text \<open>
  A second refill at the same clock reading adds \<^verbatim>\<open>0 * (rate / interval)\<close>, which is
  zero when the quotient is finite.
\<close>

lemma drip_again:
  assumes "truthy (tokensPerInterval self)"
    "is_fin (js_div (tokensPerInterval self) (this_interval self))"
    "is_double (bucketSize self)"
    "content (drip self now a) \<noteq> NaN"
  shows "drip self now (drip self now a) = drip self now a"
proof -
  obtain q where q: "js_div (tokensPerInterval self) (this_interval self) = Fin q"
    using assms(2) by (cases "js_div (tokensPerInterval self) (this_interval self)") auto
  have ld: "lastDrip (drip self now a) = Fin now"
    using assms(1) by (simp add: drip_def Let_def)
  have c: "content (drip self now a) = js_min (content (drip self now a)) (bucketSize self)"
    using assms(1) by (simp add: drip_def Let_def js_min_idem)
  have "content (drip self now (drip self now a)) =
      js_min (js_add (content (drip self now a)) (Fin 0)) (bucketSize self)"
    using assms(1) q ld by (simp add: drip_def [of self now "drip self now a"] Let_def js_max_def)
  also have "\<dots> = content (drip self now a)"
    using assms(4) c is_double_drip [OF assms(1,3)] by (simp add: js_add_zero)
  finally have "content (drip self now (drip self now a)) = content (drip self now a)" .
  moreover have "lastDrip (drip self now (drip self now a)) = lastDrip (drip self now a)"
    using assms(1) by (simp add: drip_def Let_def)
  ultimately show ?thesis
    by (cases "drip self now (drip self now a)"; cases "drip self now a") simp
qed

text \<open>
  When the quotient is not finite the second refill yields \<^verbatim>\<open>NaN\<close>, against which no
  count compares greater.
\<close>

lemma drip_again_rejected:
  assumes "truthy (tokensPerInterval self)"
    "is_double (bucketSize self)"
    "js_gt count (content (drip self now a))"
    "js_gt count (content (drip self now (drip self now a)))"
  shows "drip self now (drip self now a) = drip self now a"
proof -
  let ?q = "js_div (tokensPerInterval self) (this_interval self)"
  have ld: "lastDrip (drip self now a) = Fin now"
    using assms(1) by (simp add: drip_def Let_def)
  have c2: "content (drip self now (drip self now a)) =
      js_min (js_add (content (drip self now a)) (js_mul (Fin 0) ?q)) (bucketSize self)"
    using assms(1) ld by (simp add: drip_def [of self now "drip self now a"] Let_def js_max_def)
  have "content (drip self now (drip self now a)) \<noteq> NaN"
    using assms(4) by (rule js_gt_not_NaN)
  then have "is_fin ?q"
    unfolding c2 by (cases ?q; cases "content (drip self now a)") (auto simp: js_min_def)
  moreover have "content (drip self now a) \<noteq> NaN"
    using assms(3) by (rule js_gt_not_NaN)
  ultimately show ?thesis using assms(1,2) by (simp add: drip_again)
qed

text \<open>
  C6, as the specification states it: with a truthy bucket size, after a call that
  reaches the insufficient-tokens branch, an immediate second call with the same count
  and clock reading observes the same level. With rate -1 and interval 0 the quotient is
  \<^verbatim>\<open>-Infinity\<close>: the first call at 1000 refills a fresh record to \<^verbatim>\<open>-Infinity\<close> and
  is rejected; the second refill adds \<^verbatim>\<open>0 * -Infinity\<close>, which is \<^verbatim>\<open>NaN\<close>, so the
  level becomes \<^verbatim>\<open>NaN\<close> and the call is accepted.
\<close>

theorem rejection_repeat_counterexample:
  "truthy (bucketSize (TokenBucket (Fin 5) (Fin (- 1)) (Num (Fin 0)) 0)) \<and>
   fst (accept (TokenBucket (Fin 5) (Fin (- 1)) (Num (Fin 0)) 0) 1000 ''r'' (Fin 1) (Some ''a''))
     = False \<and>
   content (lookup_app (snd (accept (TokenBucket (Fin 5) (Fin (- 1)) (Num (Fin 0)) 0) 1000 ''r''
              (Fin 1) (Some ''a''))) ''a'') = NInf \<and>
   fst (accept (snd (accept (TokenBucket (Fin 5) (Fin (- 1)) (Num (Fin 0)) 0) 1000 ''r''
                  (Fin 1) (Some ''a''))) 1000 ''r'' (Fin 1) (Some ''a'')) = True \<and>
   content (lookup_app (snd (accept (snd (accept (TokenBucket (Fin 5) (Fin (- 1)) (Num (Fin 0)) 0)
              1000 ''r'' (Fin 1) (Some ''a''))) 1000 ''r'' (Fin 1) (Some ''a''))) ''a'') = NaN"
  by (simp add: TokenBucket_def accept_def drip_def this_interval_def resolveID_def
      lookup_app_def fresh_app_def Object_prototype_def js_max_def js_min_def Let_def)

text \<open>
  C6, amended: with a truthy bucket size, a call that reaches the insufficient-tokens
  branch (the count is not greater than the bucket size but greater than the refilled
  level) returns false and stores exactly the refilled record. When the bucket size is a
  double, an immediate second call with the same count and clock reading that is
  rejected as well changes nothing, so both calls leave the same level; and the second
  call is rejected whenever the quotient of rate and interval, as the code computes it,
  is finite.
\<close>

theorem rejection_keeps_level:
  assumes "truthy (bucketSize self)" and "\<not> js_gt count (bucketSize self)"
    and "js_gt count (content (drip self now (lookup_app self (resolveID rnd uniqueID))))"
  shows "accept self now rnd count uniqueID =
           (False, self\<lparr>storage := (storage self)(resolveID rnd uniqueID \<mapsto>
                      drip self now (lookup_app self (resolveID rnd uniqueID)))\<rparr>) \<and>
         (is_double (bucketSize self) \<longrightarrow>
            (fst (accept (snd (accept self now rnd count uniqueID)) now rnd count uniqueID) = False \<longrightarrow>
               accept (snd (accept self now rnd count uniqueID)) now rnd count uniqueID =
                 (False, snd (accept self now rnd count uniqueID))) \<and>
            (is_fin (js_div (tokensPerInterval self) (this_interval self)) \<longrightarrow>
               accept (snd (accept self now rnd count uniqueID)) now rnd count uniqueID =
                 (False, snd (accept self now rnd count uniqueID))))"
proof -
  let ?uid = "resolveID rnd uniqueID"
  let ?a1 = "drip self now (lookup_app self ?uid)"
  let ?self' = "self\<lparr>storage := (storage self)(?uid \<mapsto> ?a1)\<rparr>"
  have first: "accept self now rnd count uniqueID = (False, ?self')"
    using assms by (rule accept_reject)
  have rate: "truthy (tokensPerInterval self)"
  proof (rule ccontr)
    assume "\<not> truthy (tokensPerInterval self)"
    then have "content ?a1 = bucketSize self" by (simp add: drip_def)
    with assms(2,3) show False by simp
  qed
  have same: "drip self now ?a1 = ?a1 \<Longrightarrow> accept ?self' now rnd count uniqueID = (False, ?self')"
    using assms by (simp add: accept_def Let_def)
  have second: "fst (accept ?self' now rnd count uniqueID) = False \<Longrightarrow>
      js_gt count (content (drip self now ?a1))"
    using assms(1,2) by (simp add: accept_def Let_def split: if_splits)
  have b: "is_double (bucketSize self) \<Longrightarrow> fst (accept ?self' now rnd count uniqueID) = False \<Longrightarrow>
      accept ?self' now rnd count uniqueID = (False, ?self')"
    using same drip_again_rejected [OF rate _ assms(3)] second by blast
  have c: "is_double (bucketSize self) \<Longrightarrow>
      is_fin (js_div (tokensPerInterval self) (this_interval self)) \<Longrightarrow>
      accept ?self' now rnd count uniqueID = (False, ?self')"
    using same drip_again [OF rate _ _ js_gt_not_NaN [OF assms(3)]] by blast
  show ?thesis unfolding first snd_conv using b c by blast
qed

theorem rejection_keeps_level_witness:
  "truthy (bucketSize (TokenBucket (Fin 10) (Fin 10) (Num (Fin 1000)) 0)) \<and>
   \<not> js_gt (Fin 6) (bucketSize (TokenBucket (Fin 10) (Fin 10) (Num (Fin 1000)) 0)) \<and>
   js_gt (Fin 6) (content (drip (TokenBucket (Fin 10) (Fin 10) (Num (Fin 1000)) 0) 500
      (lookup_app (TokenBucket (Fin 10) (Fin 10) (Num (Fin 1000)) 0) (resolveID ''r'' (Some ''u''))))) \<and>
   is_double (bucketSize (TokenBucket (Fin 10) (Fin 10) (Num (Fin 1000)) 0)) \<and>
   is_fin (js_div (tokensPerInterval (TokenBucket (Fin 10) (Fin 10) (Num (Fin 1000)) 0))
      (this_interval (TokenBucket (Fin 10) (Fin 10) (Num (Fin 1000)) 0))) \<and>
   fst (accept (TokenBucket (Fin 10) (Fin 10) (Num (Fin 1000)) 0) 500 ''r'' (Fin 6) (Some ''u'')) = False \<and>
   storage (snd (accept (TokenBucket (Fin 10) (Fin 10) (Num (Fin 1000)) 0) 500 ''r'' (Fin 6) (Some ''u''))) ''u''
     = Some \<lparr> lastDrip = Fin 500, content = Fin 5 \<rparr> \<and>
   accept (snd (accept (TokenBucket (Fin 10) (Fin 10) (Num (Fin 1000)) 0) 500 ''r'' (Fin 6) (Some ''u'')))
       500 ''r'' (Fin 6) (Some ''u'')
     = (False, snd (accept (TokenBucket (Fin 10) (Fin 10) (Num (Fin 1000)) 0) 500 ''r'' (Fin 6) (Some ''u'')))"
proof -
  let ?b = "TokenBucket (Fin 10) (Fin 10) (Num (Fin 1000)) 0"
  have d: "drip ?b 500 (lookup_app ?b (resolveID ''r'' (Some ''u''))) = \<lparr> lastDrip = Fin 500, content = Fin 5 \<rparr>"
    by (simp add: TokenBucket_def this_interval_def drip_def lookup_app_def fresh_app_def
        Object_prototype_def resolveID_def js_max_def js_min_def Let_def
        fl_eval [of "- 7"] fl_eval [of 2] round_even_def)
  have h1: "truthy (bucketSize ?b)" by (simp add: TokenBucket_def)
  have h2: "\<not> js_gt (Fin 6) (bucketSize ?b)" by (simp add: TokenBucket_def)
  have h3: "js_gt (Fin 6) (content (drip ?b 500 (lookup_app ?b (resolveID ''r'' (Some ''u'')))))"
    unfolding d by simp
  have h4: "is_double (bucketSize ?b)" by (simp add: TokenBucket_def)
  have h5: "is_fin (js_div (tokensPerInterval ?b) (this_interval ?b))"
    by (simp add: TokenBucket_def this_interval_def fl_eval [of "- 7"] round_even_def Let_def)
  note t = rejection_keeps_level [OF h1 h2 h3]
  have f: "accept ?b 500 ''r'' (Fin 6) (Some ''u'') =
      (False, ?b\<lparr>storage := (storage ?b)(resolveID ''r'' (Some ''u'') \<mapsto>
         \<lparr> lastDrip = Fin 500, content = Fin 5 \<rparr>)\<rparr>)"
    using t [THEN conjunct1] unfolding d .
  have s1: "fst (accept ?b 500 ''r'' (Fin 6) (Some ''u'')) = False"
    unfolding f by simp
  have s2: "storage (snd (accept ?b 500 ''r'' (Fin 6) (Some ''u''))) ''u''
      = Some \<lparr> lastDrip = Fin 500, content = Fin 5 \<rparr>"
    unfolding f by (simp add: resolveID_def)
  note s3 = t [THEN conjunct2, THEN mp, OF h4, THEN conjunct2, THEN mp, OF h5]
  show ?thesis
    by (intro conjI h1 h2 h3 h4 h5 s1 s2 s3)
qed

section \<open>The level stays in range\<close>


lemma fl_not_NaN [simp]: "fl x \<noteq> NaN"
  by (simp add: fl_def Let_def)













section \<open>Burst\<close>















section \<open>Refill\<close>

text \<open>
  C5, as the specification states it: the refilled level is the real-valued formula,
  computed exactly. The code computes in doubles: with rate 9 per second, three seconds
  after time stamp 0 the exact formula gives 27, and \<open>drip\<close> gives
  \<^verbatim>\<open>3000 * (9 / 1000) = 26.999999999999996\<close>.
\<close>

theorem drip_exact_counterexample:
  "content (drip (TokenBucket (Fin 27) (Fin 9) (Str ''second'') 0) 3000
             \<lparr> lastDrip = Fin 0, content = Fin 0 \<rparr>)
     = Fin (7599824371187711 / 2 ^ 48) \<and>
   refill_level 27 9 1000 3000 0 0 = 27 \<and>
   content (drip (TokenBucket (Fin 27) (Fin 9) (Str ''second'') 0) 3000
             \<lparr> lastDrip = Fin 0, content = Fin 0 \<rparr>)
     \<noteq> Fin (refill_level 27 9 1000 3000 0 0)"
  by (simp add: TokenBucket_def drip_def this_interval_def js_max_def js_min_def Let_def
      refill_level_def fl_eval [of "- 7"] fl_eval [of 4] round_even_def)

text \<open>
  C5, amended: with a falsy rate \<open>drip\<close> sets the level to the bucket size and nothing
  else. Otherwise it stores \<open>now\<close> as the time stamp and sets the level to the minimum of
  the bucket size and the old level plus elapsed time times rate over interval, where the
  elapsed time is \<open>now\<close> minus the old time stamp clamped at zero, and each of these
  operations is the double-precision one: its result is rounded, not exact, and never
  truncated to whole tokens. The level equals the real-valued formula whenever the
  difference, the quotient, the product and the sum are doubles.
\<close>

theorem drip_refill:
  "(\<not> truthy (tokensPerInterval self) \<longrightarrow> drip self now a = a\<lparr>content := bucketSize self\<rparr>) \<and>
   (truthy (tokensPerInterval self) \<longrightarrow>
      drip self now a =
        a\<lparr>lastDrip := Fin now,
          content :=
            js_min (js_add (content a)
                      (js_mul (js_max (js_sub (Fin now) (lastDrip a)) (Fin 0))
                              (js_div (tokensPerInterval self) (this_interval self))))
                   (bucketSize self)\<rparr>) \<and>
   (bucketSize self = Fin C \<and> tokensPerInterval self = Fin r \<and> r \<noteq> 0 \<and>
    this_interval self = Fin i \<and> i \<noteq> 0 \<and> lastDrip a = Fin l \<and> content a = Fin c \<and>
    fl (now - l) = Fin (now - l) \<and> fl (r / i) = Fin (r / i) \<and>
    fl (max (now - l) 0 * (r / i)) = Fin (max (now - l) 0 * (r / i)) \<and>
    fl (c + max (now - l) 0 * (r / i)) = Fin (c + max (now - l) 0 * (r / i)) \<longrightarrow>
      content (drip self now a) = Fin (refill_level C r i now l c))"
proof (intro conjI impI)
  assume "\<not> truthy (tokensPerInterval self)"
  then show "drip self now a = a\<lparr>content := bucketSize self\<rparr>"
    by (simp add: drip_def)
next
  assume "truthy (tokensPerInterval self)"
  then show "drip self now a =
        a\<lparr>lastDrip := Fin now,
          content :=
            js_min (js_add (content a)
                      (js_mul (js_max (js_sub (Fin now) (lastDrip a)) (Fin 0))
                              (js_div (tokensPerInterval self) (this_interval self))))
                   (bucketSize self)\<rparr>"
    by (simp add: drip_def Let_def)
next
  assume h: "bucketSize self = Fin C \<and> tokensPerInterval self = Fin r \<and> r \<noteq> 0 \<and>
    this_interval self = Fin i \<and> i \<noteq> 0 \<and> lastDrip a = Fin l \<and> content a = Fin c \<and>
    fl (now - l) = Fin (now - l) \<and> fl (r / i) = Fin (r / i) \<and>
    fl (max (now - l) 0 * (r / i)) = Fin (max (now - l) 0 * (r / i)) \<and>
    fl (c + max (now - l) 0 * (r / i)) = Fin (c + max (now - l) 0 * (r / i))"
  define q where "q = r / i"
  define e where "e = max (now - l) 0"
  define p where "p = e * q"
  have size: "bucketSize self = Fin C" and old: "content a = Fin c"
    and rate: "truthy (tokensPerInterval self)"
    using h by simp_all
  have f: "fl (now - l) = Fin (now - l)" "fl q = Fin q" "fl p = Fin p" "fl (c + p) = Fin (c + p)"
    using h unfolding p_def e_def q_def by blast+
  have diff: "js_sub (Fin now) (lastDrip a) = Fin (now - l)"
    using h f(1) by simp
  have elapsed: "js_max (Fin (now - l)) (Fin 0) = Fin e"
    by (simp add: js_max_def e_def max_def)
  have quot: "js_div (tokensPerInterval self) (this_interval self) = Fin q"
    using h f(2) by (simp add: q_def)
  have prod: "js_mul (Fin e) (Fin q) = Fin p"
    using f(3) by (simp add: p_def)
  have sum: "js_add (Fin c) (Fin p) = Fin (c + p)"
    using f(4) by simp
  have capped: "js_min (Fin (c + p)) (Fin C) = Fin (min (c + p) C)"
    by (simp add: js_min_def min_def)
  have "content (drip self now a) =
      js_min (js_add (content a)
                (js_mul (js_max (js_sub (Fin now) (lastDrip a)) (Fin 0))
                        (js_div (tokensPerInterval self) (this_interval self))))
             (bucketSize self)"
    using rate by (simp add: drip_def Let_def)
  also have "\<dots> = Fin (min (c + p) C)"
    by (simp only: diff elapsed quot prod old sum size capped)
  also have "\<dots> = Fin (refill_level C r i now l c)"
    by (simp only: refill_level_def Let_def p_def e_def q_def)
  finally show "content (drip self now a) = Fin (refill_level C r i now l c)" .
qed

theorem drip_refill_witness:
  "drip (TokenBucket (Fin 10) (Fin 0) (Num (Fin 1000)) 0) 500 \<lparr> lastDrip = Fin 3, content = Fin 2 \<rparr>
     = \<lparr> lastDrip = Fin 3, content = Fin 10 \<rparr> \<and>
   drip (TokenBucket (Fin 10) NaN (Num (Fin 1000)) 0) 500 \<lparr> lastDrip = Fin 3, content = Fin 2 \<rparr>
     = \<lparr> lastDrip = Fin 3, content = Fin 10 \<rparr> \<and>
   drip (TokenBucket (Fin 10) (Fin 1) (Num (Fin 4)) 0) 1 \<lparr> lastDrip = Fin 0, content = Fin 0 \<rparr>
     = \<lparr> lastDrip = Fin 1, content = Fin (1 / 4) \<rparr> \<and>
   drip (TokenBucket (Fin 10) (Fin 1) (Num (Fin 4)) 0) 3 \<lparr> lastDrip = Fin 1, content = Fin (1 / 4) \<rparr>
     = \<lparr> lastDrip = Fin 3, content = Fin (3 / 4) \<rparr> \<and>
   drip (TokenBucket (Fin 10) (Fin 1) (Num (Fin 4)) 0) 100 \<lparr> lastDrip = Fin 0, content = Fin 0 \<rparr>
     = \<lparr> lastDrip = Fin 100, content = Fin 10 \<rparr> \<and>
   drip (TokenBucket (Fin 10) (Fin 1) (Num (Fin 4)) 0) 1 \<lparr> lastDrip = Fin 5, content = Fin 2 \<rparr>
     = \<lparr> lastDrip = Fin 1, content = Fin 2 \<rparr> \<and>
   content (drip (TokenBucket (Fin 100) (Fin 30000) (Str ''minute'') 0) 3
              \<lparr> lastDrip = Fin 0, content = Fin 0 \<rparr>)
     = Fin (refill_level 100 30000 60000 3 0 0) \<and>
   refill_level 100 30000 60000 3 0 0 = 3 / 2"
proof -
  let ?z = "TokenBucket (Fin 10) (Fin 0) (Num (Fin 1000)) 0"
  let ?u = "TokenBucket (Fin 10) NaN (Num (Fin 1000)) 0"
  let ?b = "TokenBucket (Fin 10) (Fin 1) (Num (Fin 4)) 0"
  let ?m = "TokenBucket (Fin 100) (Fin 30000) (Str ''minute'') 0"
  have fz: "\<not> truthy (tokensPerInterval ?z)" and fu: "\<not> truthy (tokensPerInterval ?u)"
    and tb: "truthy (tokensPerInterval ?b)"
    by (simp_all add: TokenBucket_def)
  have quarter: "fl (1 / 4) = Fin (1 / 4)" and half: "fl (1 / 2) = Fin (1 / 2)"
    and three: "fl (3 / 4) = Fin (3 / 4)" and one_half: "fl (3 / 2) = Fin (3 / 2)"
    using fl_exact [of 1 "- 2"] fl_exact [of 1 "- 1"] fl_exact [of 3 "- 2"] fl_exact [of 3 "- 1"]
    by simp_all
  have w1: "drip ?z 500 \<lparr> lastDrip = Fin 3, content = Fin 2 \<rparr> = \<lparr> lastDrip = Fin 3, content = Fin 10 \<rparr>"
    unfolding drip_refill [of ?z 500, THEN conjunct1, THEN mp, OF fz]
    by (simp add: TokenBucket_def)
  have w2: "drip ?u 500 \<lparr> lastDrip = Fin 3, content = Fin 2 \<rparr> = \<lparr> lastDrip = Fin 3, content = Fin 10 \<rparr>"
    unfolding drip_refill [of ?u 500, THEN conjunct1, THEN mp, OF fu]
    by (simp add: TokenBucket_def)
  note step = drip_refill [of ?b, THEN conjunct2, THEN conjunct1, THEN mp, OF tb]
  have w3: "drip ?b 1 \<lparr> lastDrip = Fin 0, content = Fin 0 \<rparr> = \<lparr> lastDrip = Fin 1, content = Fin (1 / 4) \<rparr>"
    unfolding step
    by (simp add: TokenBucket_def this_interval_def js_max_def js_min_def quarter)
  have w4: "drip ?b 3 \<lparr> lastDrip = Fin 1, content = Fin (1 / 4) \<rparr> = \<lparr> lastDrip = Fin 3, content = Fin (3 / 4) \<rparr>"
    unfolding step
    by (simp add: TokenBucket_def this_interval_def js_max_def js_min_def quarter half three)
  have w5: "drip ?b 100 \<lparr> lastDrip = Fin 0, content = Fin 0 \<rparr> = \<lparr> lastDrip = Fin 100, content = Fin 10 \<rparr>"
    unfolding step
    by (simp add: TokenBucket_def this_interval_def js_max_def js_min_def quarter)
  have w6: "drip ?b 1 \<lparr> lastDrip = Fin 5, content = Fin 2 \<rparr> = \<lparr> lastDrip = Fin 1, content = Fin 2 \<rparr>"
    unfolding step
    by (simp add: TokenBucket_def this_interval_def js_max_def js_min_def quarter)
  have h: "bucketSize ?m = Fin 100 \<and> tokensPerInterval ?m = Fin 30000 \<and> (30000::real) \<noteq> 0 \<and>
    this_interval ?m = Fin 60000 \<and> (60000::real) \<noteq> 0 \<and>
    lastDrip \<lparr> lastDrip = Fin 0, content = Fin 0 \<rparr> = Fin 0 \<and>
    content \<lparr> lastDrip = Fin 0, content = Fin 0 \<rparr> = Fin 0 \<and>
    fl (3 - 0) = Fin (3 - 0) \<and> fl (30000 / 60000) = Fin (30000 / 60000) \<and>
    fl (max (3 - 0) 0 * (30000 / 60000)) = Fin (max (3 - 0) 0 * (30000 / 60000)) \<and>
    fl (0 + max (3 - 0) 0 * (30000 / 60000)) = Fin (0 + max (3 - 0) 0 * (30000 / 60000))"
    by (simp add: TokenBucket_def this_interval_def half one_half)
  note w7 = drip_refill [of ?m 3 "\<lparr> lastDrip = Fin 0, content = Fin 0 \<rparr>" 100 30000 60000 0 0,
      THEN conjunct2, THEN conjunct2, THEN mp, OF h]
  have w8: "refill_level 100 30000 60000 3 0 0 = 3 / 2"
    by (simp add: refill_level_def)
  show ?thesis
    by (intro conjI w1 w2 w3 w4 w5 w6 w7 w8)
qed

end
